theory Spec2Isabelle
  imports Complex_Main "HOL-Library.AList"
begin

section \<open>Bigram language model: the notebook's code as HOL functions\<close>

text \<open>
  The model follows \<^verbatim>\<open>bigram_language_model.ipynb\<close>. Python strings are
  \<^typ>\<open>string\<close> (lists of 8-bit characters), Python's unbounded integer counts are
  \<^typ>\<open>nat\<close> (a count starts at 1 and is only incremented), the float \<^verbatim>\<open>alpha\<close>
  and every probability are \<^typ>\<open>real\<close> (exact arithmetic, no rounding), a dict is an
  association list in insertion order with distinct keys, a set is a HOL set, and a
  raised exception is the left summand of a sum type.
\<close>

subsection \<open>Tokens and string operations\<close>

type_synonym token = string

definition UNK_TOKEN :: token where
  "UNK_TOKEN = ''<UNK>''"

definition START_TOKEN :: token where
  "START_TOKEN = ''<START>''"

definition STOP_TOKEN :: token where
  "STOP_TOKEN = ''<STOP>''"

text \<open>Python's \<^verbatim>\<open>string.punctuation\<close>, the 32 ASCII punctuation characters in its order.\<close>

definition punctuation :: string where
  "punctuation =
     [CHR 0x21, CHR 0x22, CHR 0x23, CHR 0x24, CHR 0x25, CHR 0x26, CHR 0x27, CHR 0x28,
      CHR 0x29, CHR 0x2A, CHR 0x2B, CHR 0x2C, CHR 0x2D, CHR 0x2E, CHR 0x2F, CHR 0x3A,
      CHR 0x3B, CHR 0x3C, CHR 0x3D, CHR 0x3E, CHR 0x3F, CHR 0x40, CHR 0x5B, CHR 0x5C,
      CHR 0x5D, CHR 0x5E, CHR 0x5F, CHR 0x60, CHR 0x7B, CHR 0x7C, CHR 0x7D, CHR 0x7E]"

text \<open>
  The characters below code point 256 that Python's \<^verbatim>\<open>str.split()\<close> (no argument)
  treats as whitespace: tab, line feed, vertical tab, form feed, carriage return, the four
  separators 0x1C..0x1F, space, NEL (0x85) and the no-break space (0xA0).
\<close>

definition whitespace :: string where
  "whitespace =
     [CHR 0x09, CHR 0x0A, CHR 0x0B, CHR 0x0C, CHR 0x0D, CHR 0x1C, CHR 0x1D, CHR 0x1E,
      CHR 0x1F, CHR 0x20, CHR 0x85, CHR 0xA0]"

text \<open>
  \<^verbatim>\<open>s.split(sep)\<close> for a one-character separator, with the separator given as a
  predicate: every separator character ends a piece, empty pieces are kept, and the result
  is never the empty list (\<^verbatim>\<open>"".split(" ") == [""]\<close>).
\<close>

fun split_at :: "(char \<Rightarrow> bool) \<Rightarrow> string \<Rightarrow> string list" where
  "split_at sep [] = [[]]"
| "split_at sep (c # cs) =
     (if sep c then [] # split_at sep cs
      else (case split_at sep cs of [] \<Rightarrow> [[c]] | w # ws \<Rightarrow> (c # w) # ws))"

text \<open>\<^verbatim>\<open>text.split(" ")\<close>\<close>

definition split_space :: "string \<Rightarrow> string list" where
  "split_space text = split_at (\<lambda>c. c = CHR 0x20) text"

text \<open>\<^verbatim>\<open>text.split()\<close>: pieces between runs of whitespace, none of them empty.\<close>

definition split_ws :: "string \<Rightarrow> string list" where
  "split_ws text = filter (\<lambda>w. w \<noteq> []) (split_at (\<lambda>c. c \<in> set whitespace) text)"

text \<open>\<^verbatim>\<open>h.split("\n")[0]\<close>\<close>

definition first_line :: "string \<Rightarrow> string" where
  "first_line h = (case split_at (\<lambda>c. c = CHR 0x0A) h of [] \<Rightarrow> [] | l # _ \<Rightarrow> l)"

text \<open>\<^verbatim>\<open>regex.sub('', s)\<close> with \<^verbatim>\<open>regex = re.compile('[%s]' % re.escape(string.punctuation))\<close>:
  every punctuation character is deleted.\<close>

definition regex_sub :: "string \<Rightarrow> string" where
  "regex_sub s = filter (\<lambda>c. c \<notin> set punctuation) s"

text \<open>\<^verbatim>\<open>" ".join(ws)\<close>\<close>

fun join_space :: "string list \<Rightarrow> string" where
  "join_space [] = []"
| "join_space [w] = w"
| "join_space (w # ws) = w @ [CHR 0x20] @ join_space ws"

text \<open>The preprocessing of the first cell: \<^verbatim>\<open>[regex.sub('', h.split("\n")[0]) for h in lines]\<close>.\<close>

definition strip_lines :: "string list \<Rightarrow> string list" where
  "strip_lines lines = map (\<lambda>h. regex_sub (first_line h)) lines"

subsection \<open>Counting\<close>

type_synonym 'k dict = "('k \<times> nat) list"

text \<open>The body of both counting loops:
  \<^verbatim>\<open>if k not in d: d[k] = 1 else: d[k] += 1\<close>.\<close>

definition incr :: "'k \<Rightarrow> 'k dict \<Rightarrow> 'k dict" where
  "incr k d = (case map_of d k of None \<Rightarrow> AList.update k 1 d | Some n \<Rightarrow> AList.update k (n + 1) d)"

text \<open>\<^verbatim>\<open>tokens = [START_TOKEN] + text.split(" ") + [STOP_TOKEN]\<close>\<close>

definition tokens_of :: "string \<Rightarrow> token list" where
  "tokens_of text = [START_TOKEN] @ split_space text @ [STOP_TOKEN]"

definition count_unigrams :: "string \<Rightarrow> token dict \<Rightarrow> token dict" where
  "count_unigrams text unigram_dict = fold incr (tokens_of text) unigram_dict"

text \<open>The pairs \<^verbatim>\<open>(tokens[i], tokens[i+1])\<close> for \<^verbatim>\<open>i in range(len(tokens) - 1)\<close>.\<close>

definition count_bigrams :: "string \<Rightarrow> (token \<times> token) dict \<Rightarrow> (token \<times> token) dict" where
  "count_bigrams text bigram_dict =
     (let tokens = tokens_of text in fold incr (zip tokens (tl tokens)) bigram_dict)"

subsection \<open>Smoothed probability\<close>

datatype error = KeyError | ZeroDivisionError

text \<open>
  \<^verbatim>\<open>bigram = bigram_dict[(context, target)] if (context, target) in bigram_dict else 0\<close>
  \<^verbatim>\<open>return (bigram + alpha) / (unigram_dict[context] + vocab_size*alpha)\<close>
  The lookup \<^verbatim>\<open>unigram_dict[context]\<close> has no guard and raises KeyError on a missing
  key; Python's float division raises ZeroDivisionError on a zero divisor.
\<close>

definition get_probability ::
  "token \<Rightarrow> token \<Rightarrow> token dict \<Rightarrow> (token \<times> token) dict \<Rightarrow> real \<Rightarrow> nat \<Rightarrow> error + real" where
  "get_probability target context unigram_dict bigram_dict alpha vocab_size =
     (let bigram = (case map_of bigram_dict (context, target) of Some n \<Rightarrow> n | None \<Rightarrow> 0)
      in case map_of unigram_dict context of
           None \<Rightarrow> Inl KeyError
         | Some unigram \<Rightarrow>
             if real unigram + real vocab_size * alpha = 0 then Inl ZeroDivisionError
             else Inr ((real bigram + alpha) / (real unigram + real vocab_size * alpha)))"

subsection \<open>Generation\<close>

text \<open>
  \<^verbatim>\<open>generate_headline\<close>: starting from \<^verbatim>\<open>sent = [START_TOKEN]\<close>, while the last
  token is not STOP, the probability of every word of the vocabulary after the last token
  is computed and \<^verbatim>\<open>sample_word\<close> appends one word drawn from that vector
  (\<^verbatim>\<open>words[np.argmax(np.random.multinomial(1, probs, 1))]\<close>). The random draw is a
  nondeterministic choice among the words of the candidate list \<^verbatim>\<open>list(vocab)\<close> whose
  probability is positive. The predicate holds of every value the variable
  \<^verbatim>\<open>sent\<close> can take. An exception of \<^verbatim>\<open>get_probability\<close> depends on the context
  alone, so the step exists only where the whole vector is computed; the draw's own check
  of the vector (its entries must not sum to more than 1) is not part of the model: for
  the counts of a training corpus and alpha > 0 the entries sum to at most 1.
\<close>

inductive generate_headline ::
  "token set \<Rightarrow> token dict \<Rightarrow> (token \<times> token) dict \<Rightarrow> real \<Rightarrow> token list \<Rightarrow> bool"
  for vocabulary unigram_dict bigram_dict alpha where
  start: "generate_headline vocabulary unigram_dict bigram_dict alpha [START_TOKEN]"
| sample: "generate_headline vocabulary unigram_dict bigram_dict alpha sent \<Longrightarrow>
     last sent \<noteq> STOP_TOKEN \<Longrightarrow>
     next_word \<in> vocabulary \<Longrightarrow>
     get_probability next_word (last sent) unigram_dict bigram_dict alpha (card vocabulary) = Inr p \<Longrightarrow>
     0 < p \<Longrightarrow>
     generate_headline vocabulary unigram_dict bigram_dict alpha (sent @ [next_word])"

subsection \<open>Rare words, counts and vocabulary of a training corpus\<close>

text \<open>The configured values of the notebook.\<close>

definition alpha_setting :: real where
  "alpha_setting = 205 / 10000"

definition min_freq_setting :: nat where
  "min_freq_setting = 10"

text \<open>\<^verbatim>\<open>for h in headlines_train: count_unigrams(h, all_words)\<close>\<close>

definition all_words :: "string list \<Rightarrow> token dict" where
  "all_words headlines_train = fold count_unigrams headlines_train []"

text \<open>\<^verbatim>\<open>for word, count in all_words.items(): if count <= min_freq: low_freq.add(word)\<close>\<close>

definition low_freq :: "string list \<Rightarrow> nat \<Rightarrow> token set" where
  "low_freq headlines_train min_freq =
     fold (\<lambda>(word, count) s. if count \<le> min_freq then insert word s else s)
       (all_words headlines_train) {}"

definition replace_text_train :: "token set \<Rightarrow> string \<Rightarrow> string" where
  "replace_text_train low text =
     join_space (map (\<lambda>t. if t \<in> low then UNK_TOKEN else t) (split_ws text))"

definition replace_text_dev :: "token set \<Rightarrow> string \<Rightarrow> string" where
  "replace_text_dev vocabulary text =
     join_space (map (\<lambda>t. if t \<notin> vocabulary then UNK_TOKEN else t) (split_ws text))"

definition headlines_train_clean :: "string list \<Rightarrow> nat \<Rightarrow> string list" where
  "headlines_train_clean headlines_train min_freq =
     map (replace_text_train (low_freq headlines_train min_freq)) headlines_train"

text \<open>The two dicts are filled in one loop over the rewritten corpus; neither reads the
  other, so each is its own fold.\<close>

definition unigrams :: "string list \<Rightarrow> nat \<Rightarrow> token dict" where
  "unigrams headlines_train min_freq =
     fold count_unigrams (headlines_train_clean headlines_train min_freq) []"

definition bigrams :: "string list \<Rightarrow> nat \<Rightarrow> (token \<times> token) dict" where
  "bigrams headlines_train min_freq =
     fold count_bigrams (headlines_train_clean headlines_train min_freq) []"

text \<open>\<^verbatim>\<open>vocab = set([item for sublist in map(lambda x: x.split(" "), headlines_train_clean)
  for item in sublist]); vocab.add(START_TOKEN); vocab.add(STOP_TOKEN)\<close>\<close>

definition vocab :: "string list \<Rightarrow> nat \<Rightarrow> token set" where
  "vocab headlines_train min_freq =
     insert STOP_TOKEN (insert START_TOKEN
       (set (concat (map split_space (headlines_train_clean headlines_train min_freq)))))"

subsection \<open>Perplexity\<close>

text \<open>
  \<^verbatim>\<open>np.log\<close> of a positive number is its logarithm; of 0 it is \<^verbatim>\<open>-inf\<close> and of a
  negative number \<^verbatim>\<open>nan\<close>. \<^const>\<open>None\<close> stands for a float that is not finite; a sum
  with such a summand and its exponential are not finite either.
\<close>

definition np_log :: "real \<Rightarrow> real option" where
  "np_log x = (if 0 < x then Some (ln x) else None)"

text \<open>The loop \<^verbatim>\<open>for i in range(len(tokens) - 1)\<close> over adjacent tokens, with the
  accumulator \<^verbatim>\<open>log_sum\<close>; an exception of \<^verbatim>\<open>get_probability\<close> ends it.\<close>

fun log_sum_loop ::
  "token list \<Rightarrow> token dict \<Rightarrow> (token \<times> token) dict \<Rightarrow> real \<Rightarrow> nat \<Rightarrow> real option
     \<Rightarrow> error + real option" where
  "log_sum_loop (context # target # rest) unigram_dict bigram_dict alpha vocab_size log_sum =
     (case get_probability target context unigram_dict bigram_dict alpha vocab_size of
        Inl e \<Rightarrow> Inl e
      | Inr prob \<Rightarrow>
          log_sum_loop (target # rest) unigram_dict bigram_dict alpha vocab_size
            (case (log_sum, np_log prob) of
               (Some s, Some l) \<Rightarrow> Some (s + l * (- 1))
             | _ \<Rightarrow> None))"
| "log_sum_loop tokens unigram_dict bigram_dict alpha vocab_size log_sum = Inr log_sum"

definition calculate_perplexity ::
  "string \<Rightarrow> token dict \<Rightarrow> (token \<times> token) dict \<Rightarrow> real \<Rightarrow> nat \<Rightarrow> error + real option" where
  "calculate_perplexity text unigram_dict bigram_dict alpha vocab_size =
     (let tokens = tokens_of text
      in case log_sum_loop tokens unigram_dict bigram_dict alpha vocab_size (Some 0) of
           Inl e \<Rightarrow> Inl e
         | Inr log_sum \<Rightarrow>
             Inr (map_option (\<lambda>s. exp (s / real (length tokens - 1))) log_sum))"

subsection \<open>The corpus of the end-to-end scenario\<close>

definition scenario_corpus :: "string list" where
  "scenario_corpus = [''the cat sat'', ''the dog ran'']"

text \<open>The corpus of the rare-word scenario.\<close>

definition rare_corpus :: "string list" where
  "rare_corpus = [''a b'', ''a c'']"

section \<open>Properties\<close>

subsection \<open>Splitting and joining\<close>

lemma split_at_nonempty: "split_at sep s \<noteq> []"
  by (induction s) (auto split: list.splits)

lemma split_at_pieces_all: "\<forall>w\<in>set (split_at sep s). \<forall>c\<in>set w. \<not> sep c"
  by (induction s) (auto split: list.splits)

lemma split_at_pieces: "w \<in> set (split_at sep s) \<Longrightarrow> c \<in> set w \<Longrightarrow> \<not> sep c"
  using split_at_pieces_all by blast

lemma split_at_no_sep: "\<forall>c\<in>set w. \<not> sep c \<Longrightarrow> split_at sep w = [w]"
  by (induction w) auto

lemma split_at_append_sep:
  "\<forall>c\<in>set w. \<not> sep c \<Longrightarrow> sep s \<Longrightarrow> split_at sep (w @ s # rest) = w # split_at sep rest"
  by (induction w) auto

text \<open>Splitting at single spaces undoes the join of words that hold no space.\<close>

lemma split_space_join:
  "ws \<noteq> [] \<Longrightarrow> \<forall>w\<in>set ws. CHR 0x20 \<notin> set w \<Longrightarrow> split_space (join_space ws) = ws"
proof (induction ws rule: join_space.induct)
  case 1
  then show ?case by simp
next
  case (2 w)
  then have "\<forall>c\<in>set w. \<not> c = CHR 0x20"
    by auto
  then show ?case
    by (simp add: split_space_def split_at_no_sep)
next
  case (3 w v vs)
  have "split_at (\<lambda>c. c = CHR 0x20) (w @ CHR 0x20 # join_space (v # vs)) =
      w # split_at (\<lambda>c. c = CHR 0x20) (join_space (v # vs))"
    using "3.prems"(2) by (intro split_at_append_sep) auto
  with 3 show ?case
    by (simp add: split_space_def)
qed

lemma split_ws_words:
  "w \<in> set (split_ws text) \<Longrightarrow> w \<noteq> [] \<and> CHR 0x20 \<notin> set w"
proof -
  assume "w \<in> set (split_ws text)"
  then have w: "w \<in> set (split_at (\<lambda>c. c \<in> set whitespace) text)" and ne: "w \<noteq> []"
    by (simp_all add: split_ws_def)
  have "CHR 0x20 \<in> set whitespace"
    by (simp add: whitespace_def)
  with split_at_pieces[OF w, of "CHR 0x20"] ne show ?thesis
    by blast
qed

lemma tokens_replace_text_train:
  "split_space (replace_text_train low h) =
     (if split_ws h = [] then [[]]
      else map (\<lambda>t. if t \<in> low then UNK_TOKEN else t) (split_ws h))"
proof (cases "split_ws h = []")
  case True
  then show ?thesis
    by (simp add: replace_text_train_def split_space_def)
next
  case False
  have "\<forall>w\<in>set (map (\<lambda>t. if t \<in> low then UNK_TOKEN else t) (split_ws h)). CHR 0x20 \<notin> set w"
    using split_ws_words[of _ h] by (auto simp: UNK_TOKEN_def)
  with False show ?thesis
    by (simp add: replace_text_train_def split_space_join)
qed

lemma split_at_chars: "w \<in> set (split_at sep s) \<Longrightarrow> set w \<subseteq> set s"
proof -
  have "\<forall>w\<in>set (split_at sep s). set w \<subseteq> set s"
    by (induction s) (auto split: list.splits)
  then show "w \<in> set (split_at sep s) \<Longrightarrow> set w \<subseteq> set s"
    by blast
qed

lemma first_line_subset: "set (first_line h) \<subseteq> set h"
proof (cases "split_at (\<lambda>c. c = CHR 0x0A) h")
  case Nil
  then show ?thesis
    by (simp add: first_line_def)
next
  case (Cons l ls)
  then have "l \<in> set (split_at (\<lambda>c. c = CHR 0x0A) h)"
    by simp
  then have "set l \<subseteq> set h"
    by (rule split_at_chars)
  with Cons show ?thesis
    by (simp add: first_line_def)
qed

text \<open>A line of punctuation characters only is stripped to the empty string, and
  \<^verbatim>\<open>"".split(" ")\<close> is one empty token.\<close>

lemma punctuation_line_tokens:
  assumes "set h \<subseteq> set punctuation"
  shows "tokens_of (regex_sub (first_line h)) = [START_TOKEN, [], STOP_TOKEN]"
proof -
  have "set (first_line h) \<subseteq> set punctuation"
    using first_line_subset assms by blast
  then have "regex_sub (first_line h) = []"
    by (auto simp: regex_sub_def filter_empty_conv)
  then show ?thesis
    by (simp add: tokens_of_def split_space_def)
qed

subsection \<open>Dicts filled by the counting loops\<close>

lemma map_of_incr:
  "map_of (incr k d) = (map_of d)(k \<mapsto> (case map_of d k of None \<Rightarrow> 1 | Some n \<Rightarrow> n + 1))"
  by (simp add: incr_def update_conv' split: option.split)

lemma keys_incr: "fst ` set (incr k d) = insert k (fst ` set d)"
  by (simp add: incr_def dom_update split: option.split)

lemma distinct_incr: "distinct (map fst d) \<Longrightarrow> distinct (map fst (incr k d))"
  by (simp add: incr_def distinct_update split: option.split)

lemma keys_fold_incr: "fst ` set (fold incr ks d) = set ks \<union> fst ` set d"
  by (induction ks arbitrary: d) (auto simp: keys_incr)

lemma distinct_fold_incr: "distinct (map fst d) \<Longrightarrow> distinct (map fst (fold incr ks d))"
  by (induction ks arbitrary: d) (auto simp: distinct_incr)

text \<open>After the loop a key holds its old count plus its number of occurrences.\<close>

lemma map_of_fold_incr:
  "map_of (fold incr ks d) k =
     (if count_list ks k = 0 then map_of d k
      else Some (count_list ks k + (case map_of d k of None \<Rightarrow> 0 | Some n \<Rightarrow> n)))"
  by (induction ks arbitrary: d) (auto simp: map_of_incr split: option.splits)

lemma keys_count_unigrams:
  "fst ` set (fold count_unigrams hs d) = (\<Union>h\<in>set hs. set (tokens_of h)) \<union> fst ` set d"
  by (induction hs arbitrary: d) (auto simp: count_unigrams_def keys_fold_incr)

lemma keys_count_bigrams:
  "fst ` set (fold count_bigrams hs d) =
     (\<Union>h\<in>set hs. set (zip (tokens_of h) (tl (tokens_of h)))) \<union> fst ` set d"
  by (induction hs arbitrary: d) (auto simp: count_bigrams_def keys_fold_incr Let_def)

lemma distinct_count_unigrams:
  "distinct (map fst d) \<Longrightarrow> distinct (map fst (fold count_unigrams hs d))"
  by (induction hs arbitrary: d) (auto simp: count_unigrams_def distinct_fold_incr)

lemma distinct_count_bigrams:
  "distinct (map fst d) \<Longrightarrow> distinct (map fst (fold count_bigrams hs d))"
  by (induction hs arbitrary: d) (auto simp: count_bigrams_def distinct_fold_incr Let_def)

lemma map_of_count_unigrams:
  "map_of (fold count_unigrams hs d) k =
     (if (\<Sum>h\<leftarrow>hs. count_list (tokens_of h) k) = 0 then map_of d k
      else Some ((\<Sum>h\<leftarrow>hs. count_list (tokens_of h) k)
             + (case map_of d k of None \<Rightarrow> 0 | Some n \<Rightarrow> n)))"
  by (induction hs arbitrary: d)
     (auto simp: count_unigrams_def map_of_fold_incr split: option.splits)

lemma map_of_count_bigrams:
  "map_of (fold count_bigrams hs d) k =
     (if (\<Sum>h\<leftarrow>hs. count_list (zip (tokens_of h) (tl (tokens_of h))) k) = 0 then map_of d k
      else Some ((\<Sum>h\<leftarrow>hs. count_list (zip (tokens_of h) (tl (tokens_of h))) k)
             + (case map_of d k of None \<Rightarrow> 0 | Some n \<Rightarrow> n)))"
  by (induction hs arbitrary: d)
     (auto simp: count_bigrams_def Let_def map_of_fold_incr split: option.splits)

text \<open>A token is followed by another at most as often as it occurs.\<close>

lemma count_adjacent_le: "count_list (zip ts (tl ts)) (c, t) \<le> count_list ts c"
proof (induction ts rule: induct_list012)
  case 1
  show ?case by simp
next
  case (2 x)
  show ?case by simp
next
  case (3 x y zs)
  then show ?case by auto
qed

lemma sum_adjacent_le:
  assumes "finite V"
  shows "(\<Sum>t\<in>V. count_list (zip ts (tl ts)) (c, t)) \<le> count_list ts c"
proof (induction ts rule: induct_list012)
  case 1
  show ?case by simp
next
  case (2 x)
  show ?case by simp
next
  case (3 x y zs)
  have "(\<Sum>t\<in>V. count_list (zip (x # y # zs) (tl (x # y # zs))) (c, t)) =
        (\<Sum>t\<in>V. (if x = c \<and> y = t then 1 else 0) + count_list (zip (y # zs) (tl (y # zs))) (c, t))"
    by (intro sum.cong) auto
  also have "\<dots> = (\<Sum>t\<in>V. if x = c \<and> y = t then 1 else 0)
        + (\<Sum>t\<in>V. count_list (zip (y # zs) (tl (y # zs))) (c, t))"
    by (simp add: sum.distrib)
  also have "(\<Sum>t\<in>V. if x = c \<and> y = t then 1 else 0) \<le> (if x = c then 1 else (0::nat))"
    using assms by (cases "x = c") (simp_all add: sum.delta)
  finally show ?case
    using "3.IH"(2) by (simp split: if_splits)
qed

lemma sum_sum_list_swap:
  "(\<Sum>t\<in>V. \<Sum>h\<leftarrow>ls. f h t) = (\<Sum>h\<leftarrow>ls. \<Sum>t\<in>V. (f h t :: nat))"
  by (induction ls) (simp_all add: sum.distrib)

subsection \<open>The vocabulary, the counts and the rare words of a corpus\<close>

lemma start_ne_stop: "START_TOKEN \<noteq> STOP_TOKEN"
  by (simp add: START_TOKEN_def STOP_TOKEN_def)

lemma reserved_distinct:
  "UNK_TOKEN \<noteq> START_TOKEN" "UNK_TOKEN \<noteq> STOP_TOKEN" "UNK_TOKEN \<noteq> []"
  by (simp_all add: UNK_TOKEN_def START_TOKEN_def STOP_TOKEN_def)

lemma finite_vocab: "finite (vocab hs mf)"
  by (simp add: vocab_def)

lemma card_vocab_ge_2: "2 \<le> card (vocab hs mf)"
proof -
  have "{START_TOKEN, STOP_TOKEN} \<subseteq> vocab hs mf"
    by (simp add: vocab_def)
  then have "card {START_TOKEN, STOP_TOKEN} \<le> card (vocab hs mf)"
    by (rule card_mono[OF finite_vocab])
  then show ?thesis
    by (simp add: start_ne_stop)
qed

lemma set_tokens_of: "set (tokens_of h) = insert START_TOKEN (insert STOP_TOKEN (set (split_space h)))"
  by (auto simp: tokens_of_def)

lemma bigram_targets_in_vocab:
  assumes "((c, t), n) \<in> set (bigrams hs mf)"
  shows "t \<in> vocab hs mf"
proof -
  have "(c, t) \<in> fst ` set (bigrams hs mf)"
    using assms by force
  then obtain h where h: "h \<in> set (headlines_train_clean hs mf)"
    and z: "(c, t) \<in> set (zip (tokens_of h) (tl (tokens_of h)))"
    by (auto simp: bigrams_def keys_count_bigrams)
  from z have "t \<in> set (tl (tokens_of h))"
    by (rule set_zip_rightD)
  then have "t = STOP_TOKEN \<or> t \<in> set (split_space h)"
    by (auto simp: tokens_of_def)
  with h show ?thesis
    by (auto simp: vocab_def)
qed

lemma distinct_bigrams: "distinct (map fst (bigrams hs mf))"
  by (simp add: bigrams_def distinct_count_bigrams)

lemma bigram_le_unigram:
  "(case map_of (bigrams hs mf) (c, t) of None \<Rightarrow> 0 | Some n \<Rightarrow> n) \<le>
   (case map_of (unigrams hs mf) c of None \<Rightarrow> 0 | Some n \<Rightarrow> n)"
proof -
  define ls where "ls = headlines_train_clean hs mf"
  have "(\<Sum>h\<leftarrow>ls. count_list (zip (tokens_of h) (tl (tokens_of h))) (c, t)) \<le>
        (\<Sum>h\<leftarrow>ls. count_list (tokens_of h) c)"
    by (rule sum_list_mono) (rule count_adjacent_le)
  then show ?thesis
    by (simp add: bigrams_def unigrams_def map_of_count_bigrams map_of_count_unigrams
        ls_def[symmetric] del: sum_list_eq_0_iff)
qed

lemma bigram_mass_le_unigram:
  "(\<Sum>t\<in>vocab hs mf. (case map_of (bigrams hs mf) (c, t) of None \<Rightarrow> 0 | Some n \<Rightarrow> n)) \<le>
   (case map_of (unigrams hs mf) c of None \<Rightarrow> 0 | Some n \<Rightarrow> n)"
proof -
  define ls where "ls = headlines_train_clean hs mf"
  have b: "(case map_of (bigrams hs mf) (c, t) of None \<Rightarrow> 0 | Some n \<Rightarrow> n) =
      (\<Sum>h\<leftarrow>ls. count_list (zip (tokens_of h) (tl (tokens_of h))) (c, t))" for t
    by (simp add: bigrams_def map_of_count_bigrams ls_def del: sum_list_eq_0_iff)
  have u: "(case map_of (unigrams hs mf) c of None \<Rightarrow> 0 | Some n \<Rightarrow> n) =
      (\<Sum>h\<leftarrow>ls. count_list (tokens_of h) c)"
    by (simp add: unigrams_def map_of_count_unigrams ls_def del: sum_list_eq_0_iff)
  have "(\<Sum>t\<in>vocab hs mf. \<Sum>h\<leftarrow>ls. count_list (zip (tokens_of h) (tl (tokens_of h))) (c, t)) =
      (\<Sum>h\<leftarrow>ls. \<Sum>t\<in>vocab hs mf. count_list (zip (tokens_of h) (tl (tokens_of h))) (c, t))"
    by (rule sum_sum_list_swap)
  also have "\<dots> \<le> (\<Sum>h\<leftarrow>ls. count_list (tokens_of h) c)"
    by (rule sum_list_mono) (rule sum_adjacent_le[OF finite_vocab])
  finally show ?thesis
    by (simp only: b u)
qed

lemma fold_low_freq:
  "fold (\<lambda>(word, count) s. if count \<le> mf then insert word s else s) d s0 =
     s0 \<union> {w. \<exists>c. (w, c) \<in> set d \<and> c \<le> mf}"
  by (induction d arbitrary: s0) (auto split: if_splits)

lemma distinct_all_words: "distinct (map fst (all_words hs))"
  by (simp add: all_words_def distinct_count_unigrams)

text \<open>The rare words are the tokens counted at least once and at most \<open>min_freq\<close> times.\<close>

lemma low_freq_iff:
  "t \<in> low_freq hs mf \<longleftrightarrow>
     0 < (\<Sum>h\<leftarrow>hs. count_list (tokens_of h) t) \<and> (\<Sum>h\<leftarrow>hs. count_list (tokens_of h) t) \<le> mf"
proof -
  have "t \<in> low_freq hs mf \<longleftrightarrow> (\<exists>c. map_of (all_words hs) t = Some c \<and> c \<le> mf)"
    by (simp add: low_freq_def fold_low_freq distinct_all_words)
  also have "\<dots> \<longleftrightarrow> 0 < (\<Sum>h\<leftarrow>hs. count_list (tokens_of h) t) \<and>
      (\<Sum>h\<leftarrow>hs. count_list (tokens_of h) t) \<le> mf"
    by (auto simp add: all_words_def map_of_count_unigrams simp del: sum_list_eq_0_iff)
  finally show ?thesis .
qed

lemma vocab_members:
  "t \<in> vocab hs mf \<longleftrightarrow> t = START_TOKEN \<or> t = STOP_TOKEN \<or>
     (\<exists>h\<in>set hs. t \<in> set (split_space (replace_text_train (low_freq hs mf) h)))"
  by (auto simp: vocab_def headlines_train_clean_def)

lemma rare_not_in_vocab:
  assumes "t \<in> low_freq hs mf" "t \<noteq> UNK_TOKEN" "t \<noteq> START_TOKEN" "t \<noteq> STOP_TOKEN" "t \<noteq> []"
  shows "t \<notin> vocab hs mf"
proof
  assume "t \<in> vocab hs mf"
  with assms(3,4) obtain h where "h \<in> set hs"
    and "t \<in> set (split_space (replace_text_train (low_freq hs mf) h))"
    by (auto simp: vocab_members)
  then have "t \<in> set (if split_ws h = [] then [[]]
      else map (\<lambda>t. if t \<in> low_freq hs mf then UNK_TOKEN else t) (split_ws h))"
    by (simp only: tokens_replace_text_train)
  with assms(1,2,5) show False
    by (auto split: if_splits)
qed

lemma unk_in_vocab_iff:
  "UNK_TOKEN \<in> vocab hs mf \<longleftrightarrow>
     (\<exists>h\<in>set hs. \<exists>w\<in>set (split_ws h). w \<in> low_freq hs mf \<or> w = UNK_TOKEN)"
proof
  assume "UNK_TOKEN \<in> vocab hs mf"
  then obtain h where h: "h \<in> set hs"
    and "UNK_TOKEN \<in> set (split_space (replace_text_train (low_freq hs mf) h))"
    by (auto simp: vocab_members reserved_distinct)
  then have "UNK_TOKEN \<in> set (if split_ws h = [] then [[]]
      else map (\<lambda>t. if t \<in> low_freq hs mf then UNK_TOKEN else t) (split_ws h))"
    by (simp only: tokens_replace_text_train)
  then have "\<exists>w\<in>set (split_ws h). w \<in> low_freq hs mf \<or> w = UNK_TOKEN"
    by (auto simp: reserved_distinct split: if_splits)
  with h show "\<exists>h\<in>set hs. \<exists>w\<in>set (split_ws h). w \<in> low_freq hs mf \<or> w = UNK_TOKEN"
    by blast
next
  assume "\<exists>h\<in>set hs. \<exists>w\<in>set (split_ws h). w \<in> low_freq hs mf \<or> w = UNK_TOKEN"
  then obtain h w where h: "h \<in> set hs" and w: "w \<in> set (split_ws h)"
    and rare: "w \<in> low_freq hs mf \<or> w = UNK_TOKEN"
    by blast
  from w have ne: "split_ws h \<noteq> []"
    by auto
  from w rare have "UNK_TOKEN \<in> set (map (\<lambda>t. if t \<in> low_freq hs mf then UNK_TOKEN else t) (split_ws h))"
    by force
  with ne have "UNK_TOKEN \<in> set (split_space (replace_text_train (low_freq hs mf) h))"
    by (simp only: tokens_replace_text_train if_False)
  with h show "UNK_TOKEN \<in> vocab hs mf"
    unfolding vocab_members by blast
qed

subsection \<open>The scenarios, evaluated\<close>

lemma scenario_unigrams:
  "unigrams scenario_corpus 0 =
     [(START_TOKEN, 2), (''the'', 2), (''cat'', 1), (''sat'', 1), (STOP_TOKEN, 2),
      (''dog'', 1), (''ran'', 1)]"
  by code_simp

lemma scenario_bigrams:
  "bigrams scenario_corpus 0 =
     [((START_TOKEN, ''the''), 2), ((''the'', ''cat''), 1), ((''cat'', ''sat''), 1),
      ((''sat'', STOP_TOKEN), 1), ((''the'', ''dog''), 1), ((''dog'', ''ran''), 1),
      ((''ran'', STOP_TOKEN), 1)]"
  by code_simp

lemma scenario_vocab:
  "vocab scenario_corpus 0 =
     {START_TOKEN, STOP_TOKEN, ''the'', ''cat'', ''sat'', ''dog'', ''ran''}"
  by code_simp

lemma scenario_vocab_size: "card (vocab scenario_corpus 0) = 7"
  by code_simp

lemma scenario_start_mass:
  "(\<Sum>((c, t), n)\<leftarrow>bigrams scenario_corpus 0. if c = START_TOKEN then n else 0) = 2"
  by (simp add: scenario_bigrams START_TOKEN_def STOP_TOKEN_def)

lemma scenario_start_after_start:
  "get_probability START_TOKEN START_TOKEN (unigrams scenario_corpus 0)
     (bigrams scenario_corpus 0) 1 (card (vocab scenario_corpus 0)) = Inr (1 / 9)"
  by (simp add: get_probability_def scenario_unigrams scenario_bigrams scenario_vocab_size
      START_TOKEN_def STOP_TOKEN_def)

lemma rare_low_freq: "low_freq rare_corpus 1 = {''b'', ''c''}"
  by code_simp

lemma rare_clean: "headlines_train_clean rare_corpus 1 = [''a <UNK>'', ''a <UNK>'']"
  by code_simp

lemma rare_vocab: "vocab rare_corpus 1 = {''a'', UNK_TOKEN, START_TOKEN, STOP_TOKEN}"
  by code_simp

lemma rare_corpus_words: "split_ws ''a b'' = [''a'', ''b'']"
  by code_simp

subsection \<open>The smoothed estimator\<close>

text \<open>
  Claim C1. For every target token and every context token present in the unigram counts,
  the estimator returns (BigramCounts[(context, target)] + alpha) divided by
  (UnigramCounts[context] + |Vocabulary| * alpha), a bigram missing from the bigram counts
  counting 0 (the quotient exists when the divisor is not zero, as it is for every positive
  alpha). For the training corpus "the cat sat", "the dog ran" with min_freq = 0 and
  alpha = 1 the vocabulary has 7 members, the bigram (START, the) and the unigrams START
  and the are counted twice, and the probability of "the" after START is 1/3.
\<close>

theorem get_probability_formula:
  "(map_of unigram_dict context = Some u \<longrightarrow> real u + real vocab_size * alpha \<noteq> 0 \<longrightarrow>
      get_probability target context unigram_dict bigram_dict alpha vocab_size =
        Inr ((real (case map_of bigram_dict (context, target) of None \<Rightarrow> 0 | Some n \<Rightarrow> n) + alpha)
             / (real u + real vocab_size * alpha))) \<and>
   card (vocab scenario_corpus 0) = 7 \<and>
   map_of (bigrams scenario_corpus 0) (START_TOKEN, ''the'') = Some 2 \<and>
   map_of (unigrams scenario_corpus 0) START_TOKEN = Some 2 \<and>
   map_of (unigrams scenario_corpus 0) ''the'' = Some 2 \<and>
   get_probability ''the'' START_TOKEN (unigrams scenario_corpus 0) (bigrams scenario_corpus 0)
     1 (card (vocab scenario_corpus 0)) = Inr (1 / 3)"
proof (intro conjI impI)
  assume "map_of unigram_dict context = Some u" "real u + real vocab_size * alpha \<noteq> 0"
  then show "get_probability target context unigram_dict bigram_dict alpha vocab_size =
        Inr ((real (case map_of bigram_dict (context, target) of None \<Rightarrow> 0 | Some n \<Rightarrow> n) + alpha)
             / (real u + real vocab_size * alpha))"
    by (simp add: get_probability_def split: option.split)
next
  show "card (vocab scenario_corpus 0) = 7"
    by (rule scenario_vocab_size)
next
  show "map_of (bigrams scenario_corpus 0) (START_TOKEN, ''the'') = Some 2"
    by (simp add: scenario_bigrams)
next
  show "map_of (unigrams scenario_corpus 0) START_TOKEN = Some 2"
    by (simp add: scenario_unigrams)
next
  show "map_of (unigrams scenario_corpus 0) ''the'' = Some 2"
    by (simp add: scenario_unigrams START_TOKEN_def)
next
  show "get_probability ''the'' START_TOKEN (unigrams scenario_corpus 0)
     (bigrams scenario_corpus 0) 1 (card (vocab scenario_corpus 0)) = Inr (1 / 3)"
    by (simp add: get_probability_def scenario_unigrams scenario_bigrams scenario_vocab_size)
qed

text \<open>The formula at a context seen once and a bigram never seen, with alpha = 1/2.\<close>

theorem get_probability_formula_witness:
  "map_of (unigrams scenario_corpus 0) ''cat'' = Some 1 \<and>
   real 1 + real 7 * (1 / 2) \<noteq> 0 \<and>
   get_probability ''dog'' ''cat'' (unigrams scenario_corpus 0) (bigrams scenario_corpus 0) (1 / 2) 7
     = Inr (1 / 9)"
proof -
  have present: "map_of (unigrams scenario_corpus 0) ''cat'' = Some 1"
    by (simp add: scenario_unigrams START_TOKEN_def)
  have nonzero: "real 1 + real 7 * (1 / 2) \<noteq> 0"
    by simp
  have unseen: "map_of (bigrams scenario_corpus 0) (''cat'', ''dog'') = None"
    by (simp add: scenario_bigrams START_TOKEN_def STOP_TOKEN_def)
  from get_probability_formula[of "unigrams scenario_corpus 0" "''cat''" 1 7 "1 / 2"
      "''dog''" "bigrams scenario_corpus 0"] present nonzero unseen
  show ?thesis
    by simp
qed

text \<open>
  Claim C2. For a context token never seen in training the estimator should treat the
  unigram count as 0 and return the positive value alpha / (|Vocabulary| * alpha). The
  code looks the context up without a guard: in the scenario (no rare word, so UNK is not
  counted) the held-out line "the bird sat" is rewritten to "the <UNK> sat", UNK is
  missing from the unigram counts, and the estimator raises KeyError for the context UNK.
\<close>

theorem unseen_context_raises:
  "replace_text_dev (vocab scenario_corpus 0) ''the bird sat'' = ''the <UNK> sat'' \<and>
   map_of (unigrams scenario_corpus 0) UNK_TOKEN = None \<and>
   get_probability ''sat'' UNK_TOKEN (unigrams scenario_corpus 0) (bigrams scenario_corpus 0)
     1 (card (vocab scenario_corpus 0)) = Inl KeyError"
proof (intro conjI)
  show "replace_text_dev (vocab scenario_corpus 0) ''the bird sat'' = ''the <UNK> sat''"
    by code_simp
  show absent: "map_of (unigrams scenario_corpus 0) UNK_TOKEN = None"
    by code_simp
  show "get_probability ''sat'' UNK_TOKEN (unigrams scenario_corpus 0)
     (bigrams scenario_corpus 0) 1 (card (vocab scenario_corpus 0)) = Inl KeyError"
    by (simp add: get_probability_def absent)
qed

text \<open>
  Where the context is present in the unigram counts the smoothing works as intended:
  with alpha > 0 and a non-empty vocabulary the probability is positive, and for the
  counts and the vocabulary of a training corpus it is at most 1.
\<close>

lemma get_probability_pos:
  assumes "0 < alpha" "0 < vocab_size" "map_of unigram_dict context = Some u"
  shows "\<exists>p. get_probability target context unigram_dict bigram_dict alpha vocab_size = Inr p \<and> 0 < p"
proof -
  have d: "0 < real u + real vocab_size * alpha"
    using assms(1,2) by (simp add: add_nonneg_pos)
  have n: "0 < real b + alpha" for b :: nat
    using assms(1) by (simp add: add_nonneg_pos)
  show ?thesis
    using d n assms(3) by (simp add: get_probability_def split: option.split)
qed

lemma get_probability_unit_interval:
  assumes "0 < alpha" "map_of (unigrams hs mf) c = Some u"
  shows "\<exists>p. get_probability t c (unigrams hs mf) (bigrams hs mf) alpha (card (vocab hs mf)) = Inr p
           \<and> 0 < p \<and> p \<le> 1"
proof -
  define b where "b = (case map_of (bigrams hs mf) (c, t) of None \<Rightarrow> 0 | Some n \<Rightarrow> n)"
  define V where "V = card (vocab hs mf)"
  have "b \<le> u"
    using bigram_le_unigram[of hs mf c t] assms(2) by (simp add: b_def)
  then have bu: "real b \<le> real u"
    by simp
  have "1 \<le> real V"
    using card_vocab_ge_2[of hs mf] by (simp add: V_def)
  then have "alpha \<le> real V * alpha"
    using assms(1) by simp
  with bu have le: "real b + alpha \<le> real u + real V * alpha"
    by simp
  have num: "0 < real b + alpha"
    using assms(1) by (simp add: add_nonneg_pos)
  with le have den: "0 < real u + real V * alpha"
    by simp
  have "get_probability t c (unigrams hs mf) (bigrams hs mf) alpha V =
      Inr ((real b + alpha) / (real u + real V * alpha))"
    using den assms(2) by (simp add: get_probability_def b_def)
  moreover have "0 < (real b + alpha) / (real u + real V * alpha)"
    using num den by simp
  moreover have "(real b + alpha) / (real u + real V * alpha) \<le> 1"
    using le den by simp
  ultimately show ?thesis
    unfolding V_def by blast
qed

text \<open>
  Claim C3. With alpha > 0 and a non-empty vocabulary every pair of tokens should get a
  probability greater than 0. For the empty training corpus the vocabulary is
  {START, STOP}, both count tables are empty, and with alpha = 1 the pair (START, STOP) of
  the vocabulary gets no probability: the estimator raises KeyError.
\<close>

theorem empty_corpus_no_probability:
  "vocab [] 0 = {START_TOKEN, STOP_TOKEN} \<and> unigrams [] 0 = [] \<and> bigrams [] 0 = [] \<and>
   get_probability STOP_TOKEN START_TOKEN (unigrams [] 0) (bigrams [] 0) 1 (card (vocab [] 0))
     = Inl KeyError"
  by (auto simp: get_probability_def vocab_def unigrams_def bigrams_def headlines_train_clean_def)

text \<open>
  Claim C9, as the code has it. Nothing validates alpha. The notebook's alpha is the
  constant 0.0205, which is positive; the estimator called with an alpha that is zero or
  negative is not rejected: with the context present in the unigram counts it returns
  (bigram + alpha) / (unigram + vocab_size * alpha) whenever that divisor is not zero, and
  raises ZeroDivisionError only when the divisor is exactly zero.
\<close>

theorem alpha_not_validated:
  "0 < alpha_setting \<and>
   (alpha \<le> 0 \<longrightarrow> map_of unigram_dict context = Some u \<longrightarrow>
      get_probability target context unigram_dict bigram_dict alpha vocab_size =
        (if real u + real vocab_size * alpha = 0 then Inl ZeroDivisionError
         else Inr ((real (case map_of bigram_dict (context, target) of None \<Rightarrow> 0 | Some n \<Rightarrow> n)
                    + alpha) / (real u + real vocab_size * alpha))))"
  by (simp add: alpha_setting_def get_probability_def split: option.split)

text \<open>With alpha = 0 the estimator returns the unsmoothed ratio 1/2; with alpha = -2/7
  and 7 words the divisor 2 + 7 * alpha is zero.\<close>

theorem alpha_not_validated_witness:
  "(0::real) \<le> 0 \<and> map_of (unigrams scenario_corpus 0) ''the'' = Some 2 \<and>
   get_probability ''cat'' ''the'' (unigrams scenario_corpus 0) (bigrams scenario_corpus 0) 0 7
     = Inr (1 / 2) \<and>
   - (2 / 7) \<le> (0::real) \<and>
   get_probability ''cat'' ''the'' (unigrams scenario_corpus 0) (bigrams scenario_corpus 0)
     (- (2 / 7)) 7 = Inl ZeroDivisionError"
proof -
  have present: "map_of (unigrams scenario_corpus 0) ''the'' = Some 2"
    by (simp add: scenario_unigrams START_TOKEN_def)
  have seen: "map_of (bigrams scenario_corpus 0) (''the'', ''cat'') = Some 1"
    by (simp add: scenario_bigrams START_TOKEN_def)
  from alpha_not_validated[of 0 "unigrams scenario_corpus 0" "''the''" 2 "''cat''"
      "bigrams scenario_corpus 0" 7]
    alpha_not_validated[of "- (2 / 7)" "unigrams scenario_corpus 0" "''the''" 2 "''cat''"
      "bigrams scenario_corpus 0" 7] present seen
  show ?thesis
    by simp
qed

text \<open>
  Claim C9 as stated fails: a configuration with alpha = 0 or alpha = -1 is not rejected.
  In the scenario the estimator computes the probability 0 for an unseen bigram with
  alpha = 0, and the negative value -1/5 with alpha = -1.
\<close>

theorem nonpositive_alpha_counterexample:
  "get_probability ''dog'' ''cat'' (unigrams scenario_corpus 0) (bigrams scenario_corpus 0)
     0 (card (vocab scenario_corpus 0)) = Inr 0 \<and>
   get_probability ''the'' START_TOKEN (unigrams scenario_corpus 0) (bigrams scenario_corpus 0)
     (- 1) (card (vocab scenario_corpus 0)) = Inr (- (1 / 5))"
  by (simp add: get_probability_def scenario_unigrams scenario_bigrams scenario_vocab_size
      START_TOKEN_def STOP_TOKEN_def)

text \<open>
  Claim C10. For every training corpus, the empty one included, the vocabulary contains
  START and STOP and so has at least 2 members; hence for every alpha > 0 the divisor
  UnigramCounts[context] + |Vocabulary| * alpha (a missing context counting 0) is positive
  and the estimator never divides by zero.
\<close>

theorem vocab_boundaries_no_zero_division:
  "START_TOKEN \<in> vocab headlines_train min_freq \<and>
   STOP_TOKEN \<in> vocab headlines_train min_freq \<and>
   2 \<le> card (vocab headlines_train min_freq) \<and>
   (0 < alpha \<longrightarrow>
      0 < real (case map_of (unigrams headlines_train min_freq) context of None \<Rightarrow> 0 | Some n \<Rightarrow> n)
          + real (card (vocab headlines_train min_freq)) * alpha \<and>
      get_probability target context (unigrams headlines_train min_freq)
        (bigrams headlines_train min_freq) alpha (card (vocab headlines_train min_freq))
        \<noteq> Inl ZeroDivisionError)"
proof (intro conjI impI)
  show "START_TOKEN \<in> vocab headlines_train min_freq" "STOP_TOKEN \<in> vocab headlines_train min_freq"
    by (simp_all add: vocab_def)
  show "2 \<le> card (vocab headlines_train min_freq)"
    by (rule card_vocab_ge_2)
next
  assume pos: "0 < alpha"
  have "0 < real (card (vocab headlines_train min_freq))"
    using card_vocab_ge_2[of headlines_train min_freq] by simp
  with pos have prod: "0 < real (card (vocab headlines_train min_freq)) * alpha"
    by simp
  then show "0 < real (case map_of (unigrams headlines_train min_freq) context of None \<Rightarrow> 0 | Some n \<Rightarrow> n)
          + real (card (vocab headlines_train min_freq)) * alpha"
    by (simp add: add_nonneg_pos)
  have "real n + real (card (vocab headlines_train min_freq)) * alpha \<noteq> 0" for n :: nat
    using prod by (simp add: add_nonneg_pos order_less_imp_not_eq2)
  then show "get_probability target context (unigrams headlines_train min_freq)
        (bigrams headlines_train min_freq) alpha (card (vocab headlines_train min_freq))
        \<noteq> Inl ZeroDivisionError"
    by (simp add: get_probability_def split: option.split)
qed

text \<open>The empty corpus with alpha = 1.\<close>

theorem vocab_boundaries_no_zero_division_witness:
  "START_TOKEN \<in> vocab [] 0 \<and> STOP_TOKEN \<in> vocab [] 0 \<and> 2 \<le> card (vocab [] 0) \<and>
   (0::real) < 1 \<and>
   0 < real (case map_of (unigrams [] 0) START_TOKEN of None \<Rightarrow> 0 | Some n \<Rightarrow> n)
          + real (card (vocab [] 0)) * 1 \<and>
   get_probability STOP_TOKEN START_TOKEN (unigrams [] 0) (bigrams [] 0) 1 (card (vocab [] 0))
     \<noteq> Inl ZeroDivisionError"
  using vocab_boundaries_no_zero_division[of "[]" 0 1 START_TOKEN STOP_TOKEN]
  by simp

subsection \<open>Normalisation\<close>

text \<open>The counts of the bigrams with one context, summed over a set of targets that
  holds every target counted after that context.\<close>

lemma sum_bigram_counts:
  assumes "distinct (map fst B)" "finite V"
    and "\<And>t n. ((context, t), n) \<in> set B \<Longrightarrow> t \<in> V"
  shows "(\<Sum>t\<in>V. (case map_of B (context, t) of None \<Rightarrow> 0 | Some n \<Rightarrow> n)) =
         (\<Sum>((c, t), n)\<leftarrow>B. if c = context then n else 0)"
  using assms(1,3)
proof (induction B)
  case Nil
  show ?case by simp
next
  case (Cons e B)
  obtain c t n where e: "e = ((c, t), n)"
    by (metis surj_pair)
  have fresh: "map_of B (c, t) = None"
    using Cons.prems(1) by (simp add: e map_of_eq_None_iff)
  have IH: "(\<Sum>t\<in>V. (case map_of B (context, t) of None \<Rightarrow> 0 | Some n \<Rightarrow> n)) =
         (\<Sum>((c, t), n)\<leftarrow>B. if c = context then n else 0)"
  proof (rule Cons.IH)
    show "distinct (map fst B)"
      using Cons.prems(1) by simp
    show "t \<in> V" if "((context, t), n) \<in> set B" for t n
      using that Cons.prems(2)[of t n] by simp
  qed
  show ?case
  proof (cases "c = context")
    case False
    then have "map_of (e # B) (context, t') = map_of B (context, t')" for t'
      by (simp add: e)
    with False IH show ?thesis
      by (simp add: e)
  next
    case True
    then have tV: "t \<in> V"
      using Cons.prems(2)[of t n] by (simp add: e)
    have "(case map_of (e # B) (context, t') of None \<Rightarrow> 0 | Some n \<Rightarrow> n) =
          (case map_of B (context, t') of None \<Rightarrow> 0 | Some n \<Rightarrow> n) + (if t = t' then n else 0)" for t'
      using fresh True by (auto simp: e)
    then have "(\<Sum>t\<in>V. (case map_of (e # B) (context, t) of None \<Rightarrow> 0 | Some n \<Rightarrow> n)) =
        (\<Sum>t\<in>V. (case map_of B (context, t) of None \<Rightarrow> 0 | Some n \<Rightarrow> n)) + (\<Sum>t'\<in>V. if t = t' then n else 0)"
      by (simp add: sum.distrib)
    also have "(\<Sum>t'\<in>V. if t = t' then n else 0) = n"
      using tV assms(2) by simp
    finally have "(\<Sum>t\<in>V. (case map_of (e # B) (context, t) of None \<Rightarrow> 0 | Some n \<Rightarrow> n)) =
        n + (\<Sum>((c, t), n)\<leftarrow>B. if c = context then n else 0)"
      by (simp only: IH add.commute)
    moreover have "(\<Sum>((c, t), n)\<leftarrow>e # B. if c = context then n else 0) =
        n + (\<Sum>((c, t), n)\<leftarrow>B. if c = context then n else 0)"
      using True by (simp add: e)
    ultimately show ?thesis
      by (simp only:)
  qed
qed

text \<open>
  Claim C4. For every context token whose bigram counts, summed over all targets, equal
  its unigram count, the probabilities of all the tokens of the vocabulary after that
  context sum to exactly 1, for every alpha > 0 (in exact arithmetic, for the counts and
  the vocabulary of any training corpus and threshold).
\<close>

theorem probabilities_sum_to_one:
  assumes "0 < alpha"
    and "map_of (unigrams hs mf) context = Some u"
    and "(\<Sum>((c, t), n)\<leftarrow>bigrams hs mf. if c = context then n else 0) = u"
  shows "\<exists>p. (\<forall>t\<in>vocab hs mf. get_probability t context (unigrams hs mf) (bigrams hs mf)
                  alpha (card (vocab hs mf)) = Inr (p t)) \<and>
             (\<Sum>t\<in>vocab hs mf. p t) = 1"
proof -
  define V where "V = vocab hs mf"
  define b where "b t = (case map_of (bigrams hs mf) (context, t) of None \<Rightarrow> 0 | Some n \<Rightarrow> n)" for t
  define D where "D = real u + real (card V) * alpha"
  define p where "p t = (real (b t) + alpha) / D" for t
  have fin: "finite V"
    by (simp add: V_def finite_vocab)
  have "0 < real (card V)"
    using card_vocab_ge_2[of hs mf] by (simp add: V_def)
  then have D: "0 < D"
    using assms(1) by (simp add: D_def add_nonneg_pos)
  have each: "get_probability t context (unigrams hs mf) (bigrams hs mf) alpha (card V) = Inr (p t)" for t
    using D assms(2) by (simp add: get_probability_def p_def b_def D_def)
  have "(\<Sum>t\<in>vocab hs mf. (case map_of (bigrams hs mf) (context, t) of None \<Rightarrow> 0 | Some n \<Rightarrow> n)) =
        (\<Sum>((c, t), n)\<leftarrow>bigrams hs mf. if c = context then n else 0)"
    by (rule sum_bigram_counts[OF distinct_bigrams finite_vocab]) (rule bigram_targets_in_vocab)
  with assms(3) have "(\<Sum>t\<in>V. b t) = u"
    by (simp add: b_def V_def)
  then have "(\<Sum>t\<in>V. real (b t)) = real u"
    by (metis of_nat_sum)
  then have "(\<Sum>t\<in>V. real (b t) + alpha) = D"
    by (simp add: sum.distrib D_def)
  then have "(\<Sum>t\<in>V. p t) = D / D"
    by (simp add: p_def sum_divide_distrib[symmetric])
  with D have "(\<Sum>t\<in>V. p t) = 1"
    by simp
  with each show ?thesis
    unfolding V_def by blast
qed

text \<open>The context START of the scenario: its bigram counts and its unigram count are 2.\<close>

theorem probabilities_sum_to_one_witness:
  "(0::real) < 1 \<and> map_of (unigrams scenario_corpus 0) START_TOKEN = Some 2 \<and>
   (\<Sum>((c, t), n)\<leftarrow>bigrams scenario_corpus 0. if c = START_TOKEN then n else 0) = 2 \<and>
   (\<exists>p. (\<forall>t\<in>vocab scenario_corpus 0. get_probability t START_TOKEN (unigrams scenario_corpus 0)
            (bigrams scenario_corpus 0) 1 (card (vocab scenario_corpus 0)) = Inr (p t)) \<and>
        (\<Sum>t\<in>vocab scenario_corpus 0. p t) = 1)"
proof -
  have a: "(0::real) < 1"
    by simp
  have u: "map_of (unigrams scenario_corpus 0) START_TOKEN = Some 2"
    by (simp add: scenario_unigrams)
  from probabilities_sum_to_one[OF a u scenario_start_mass] a u scenario_start_mass
  show ?thesis
    by blast
qed

text \<open>
  For every context present in the unigram counts of a training corpus, the probabilities
  over the vocabulary sum to at most 1: the vector handed to the multinomial draw of the
  generator is a valid one.
\<close>

lemma probabilities_sum_le_one:
  assumes "0 < alpha" "map_of (unigrams hs mf) c = Some u"
  shows "(\<Sum>t\<in>vocab hs mf.
            (real (case map_of (bigrams hs mf) (c, t) of None \<Rightarrow> 0 | Some n \<Rightarrow> n) + alpha)
            / (real u + real (card (vocab hs mf)) * alpha)) \<le> 1"
proof -
  define V where "V = vocab hs mf"
  define b where "b t = (case map_of (bigrams hs mf) (c, t) of None \<Rightarrow> 0 | Some n \<Rightarrow> n)" for t
  define D where "D = real u + real (card V) * alpha"
  have "0 < real (card V)"
    using card_vocab_ge_2[of hs mf] by (simp add: V_def)
  then have D: "0 < D"
    using assms(1) by (simp add: D_def add_nonneg_pos)
  have "(\<Sum>t\<in>V. b t) \<le> u"
    using bigram_mass_le_unigram[of hs mf c] assms(2) by (simp add: b_def V_def)
  then have "real (\<Sum>t\<in>V. b t) \<le> real u"
    by (simp only: of_nat_le_iff)
  then have "(\<Sum>t\<in>V. real (b t)) \<le> real u"
    by simp
  then have "(\<Sum>t\<in>V. real (b t) + alpha) \<le> D"
    by (simp add: sum.distrib D_def)
  then have "(\<Sum>t\<in>V. real (b t) + alpha) / D \<le> 1"
    using D by simp
  then show ?thesis
    by (simp add: sum_divide_distrib b_def D_def V_def)
qed

subsection \<open>Rare words and the vocabulary\<close>

text \<open>
  Claim C7, as the code has it. For every training corpus and threshold min_freq, the set
  of rare words holds exactly the tokens whose pre-collapse unigram count (over the lines
  split at single spaces and wrapped in START and STOP) is at least 1 and at most
  min_freq. In every training line that has a word, each body token (a word between
  whitespace) is replaced by UNK exactly when it is in that set. A rare token other than
  UNK, START, STOP and the empty string is not in the vocabulary; START and STOP are in
  the vocabulary whatever their counts; UNK is in the vocabulary exactly when some body
  token was rare (or was the text of UNK itself). With min_freq = 1 on "a b", "a c" the
  rare words are b and c, the rewritten corpus is "a <UNK>", "a <UNK>", and the vocabulary
  is a, UNK, START, STOP.
\<close>

theorem rare_words_collapsed:
  "(t \<in> low_freq hs mf \<longleftrightarrow>
      0 < (\<Sum>h\<leftarrow>hs. count_list (tokens_of h) t) \<and> (\<Sum>h\<leftarrow>hs. count_list (tokens_of h) t) \<le> mf) \<and>
   (\<forall>h\<in>set hs. split_ws h \<noteq> [] \<longrightarrow>
      split_space (replace_text_train (low_freq hs mf) h) =
        map (\<lambda>w. if w \<in> low_freq hs mf then UNK_TOKEN else w) (split_ws h)) \<and>
   (t \<in> low_freq hs mf \<and> t \<noteq> UNK_TOKEN \<and> t \<noteq> START_TOKEN \<and> t \<noteq> STOP_TOKEN \<and> t \<noteq> []
      \<longrightarrow> t \<notin> vocab hs mf) \<and>
   (UNK_TOKEN \<in> vocab hs mf \<longleftrightarrow>
      (\<exists>h\<in>set hs. \<exists>w\<in>set (split_ws h). w \<in> low_freq hs mf \<or> w = UNK_TOKEN)) \<and>
   START_TOKEN \<in> vocab hs mf \<and> STOP_TOKEN \<in> vocab hs mf \<and>
   low_freq rare_corpus 1 = {''b'', ''c''} \<and>
   headlines_train_clean rare_corpus 1 = [''a <UNK>'', ''a <UNK>''] \<and>
   vocab rare_corpus 1 = {''a'', UNK_TOKEN, START_TOKEN, STOP_TOKEN}"
proof (intro conjI)
  show "t \<in> low_freq hs mf \<longleftrightarrow>
      0 < (\<Sum>h\<leftarrow>hs. count_list (tokens_of h) t) \<and> (\<Sum>h\<leftarrow>hs. count_list (tokens_of h) t) \<le> mf"
    by (rule low_freq_iff)
  show "\<forall>h\<in>set hs. split_ws h \<noteq> [] \<longrightarrow>
      split_space (replace_text_train (low_freq hs mf) h) =
        map (\<lambda>w. if w \<in> low_freq hs mf then UNK_TOKEN else w) (split_ws h)"
    by (simp add: tokens_replace_text_train)
  show "t \<in> low_freq hs mf \<and> t \<noteq> UNK_TOKEN \<and> t \<noteq> START_TOKEN \<and> t \<noteq> STOP_TOKEN \<and> t \<noteq> []
      \<longrightarrow> t \<notin> vocab hs mf"
    using rare_not_in_vocab by blast
  show "UNK_TOKEN \<in> vocab hs mf \<longleftrightarrow>
      (\<exists>h\<in>set hs. \<exists>w\<in>set (split_ws h). w \<in> low_freq hs mf \<or> w = UNK_TOKEN)"
    by (rule unk_in_vocab_iff)
  show "START_TOKEN \<in> vocab hs mf" "STOP_TOKEN \<in> vocab hs mf"
    by (simp_all add: vocab_def)
  show "low_freq rare_corpus 1 = {''b'', ''c''}"
    by (rule rare_low_freq)
  show "headlines_train_clean rare_corpus 1 = [''a <UNK>'', ''a <UNK>'']"
    by (rule rare_clean)
  show "vocab rare_corpus 1 = {''a'', UNK_TOKEN, START_TOKEN, STOP_TOKEN}"
    by (rule rare_vocab)
qed

text \<open>The line "a b" and the rare word b of the rare-word scenario.\<close>

theorem rare_words_collapsed_witness:
  "''a b'' \<in> set rare_corpus \<and> split_ws ''a b'' \<noteq> [] \<and>
   split_space (replace_text_train (low_freq rare_corpus 1) ''a b'') = [''a'', UNK_TOKEN] \<and>
   ''b'' \<in> low_freq rare_corpus 1 \<and> ''b'' \<noteq> UNK_TOKEN \<and> ''b'' \<noteq> START_TOKEN \<and>
   ''b'' \<noteq> STOP_TOKEN \<and> ''b'' \<noteq> [] \<and> ''b'' \<notin> vocab rare_corpus 1 \<and>
   (\<Sum>h\<leftarrow>rare_corpus. count_list (tokens_of h) ''b'') = 1 \<and>
   UNK_TOKEN \<in> vocab rare_corpus 1"
proof -
  note inst = rare_words_collapsed[of "''b''" rare_corpus 1]
  have line: "''a b'' \<in> set rare_corpus"
    by (simp add: rare_corpus_def)
  have words: "split_ws ''a b'' \<noteq> []"
    by (simp add: rare_corpus_words)
  have rare: "''b'' \<in> low_freq rare_corpus 1"
    by (subst rare_low_freq) simp
  have other: "''b'' \<noteq> UNK_TOKEN" "''b'' \<noteq> START_TOKEN" "''b'' \<noteq> STOP_TOKEN" "''b'' \<noteq> []"
    by (simp_all add: UNK_TOKEN_def START_TOKEN_def STOP_TOKEN_def)
  from inst line words
  have "split_space (replace_text_train (low_freq rare_corpus 1) ''a b'') =
      map (\<lambda>w. if w \<in> low_freq rare_corpus 1 then UNK_TOKEN else w) (split_ws ''a b'')"
    by blast
  then have rewritten:
    "split_space (replace_text_train (low_freq rare_corpus 1) ''a b'') = [''a'', UNK_TOKEN]"
    by (simp only: rare_corpus_words rare_low_freq) simp
  from inst rare other have excluded: "''b'' \<notin> vocab rare_corpus 1"
    by blast
  from inst rare have cnt: "0 < (\<Sum>h\<leftarrow>rare_corpus. count_list (tokens_of h) ''b'') \<and>
      (\<Sum>h\<leftarrow>rare_corpus. count_list (tokens_of h) ''b'') \<le> 1"
    by blast
  then have one: "(\<Sum>h\<leftarrow>rare_corpus. count_list (tokens_of h) ''b'') = 1"
    by linarith
  have "\<exists>h\<in>set rare_corpus. \<exists>w\<in>set (split_ws h). w \<in> low_freq rare_corpus 1 \<or> w = UNK_TOKEN"
    using line rare by (intro bexI[of _ "''a b''"] bexI[of _ "''b''"]) (simp_all add: rare_corpus_words)
  with inst have unk: "UNK_TOKEN \<in> vocab rare_corpus 1"
    by blast
  from line words rewritten rare other excluded one unk show ?thesis
    by blast
qed

text \<open>
  Claim C7 as stated fails. With min_freq = 2 on "a b", "a c" the token START has the
  pre-collapse count 2 and is in the set of rare words, yet the vocabulary contains it;
  with min_freq = 0 no word is rare and the vocabulary does not contain UNK.
\<close>

theorem rare_words_counterexample:
  "START_TOKEN \<in> low_freq rare_corpus 2 \<and> START_TOKEN \<in> vocab rare_corpus 2 \<and>
   low_freq rare_corpus 0 = {} \<and> UNK_TOKEN \<notin> vocab rare_corpus 0"
  by code_simp

subsection \<open>Generation\<close>

lemma generate_headline_shape:
  "generate_headline vocabulary unigram_dict bigram_dict alpha sent \<Longrightarrow>
     sent \<noteq> [] \<and> hd sent = START_TOKEN \<and> set (tl sent) \<subseteq> vocabulary"
  by (induction rule: generate_headline.induct) auto

text \<open>
  Claim C8, as the code has it. With the vocabulary and the counts of a training corpus,
  every value of the generated sequence begins with START at position 0 and every token
  appended after it is a member of the vocabulary. START is a member of the vocabulary
  and is not excluded from the candidates: when alpha > 0 and the last token is not STOP
  and is present in the unigram counts, START has positive probability and the generator
  can append it.
\<close>

theorem generate_headline_tokens:
  "generate_headline (vocab hs mf) (unigrams hs mf) (bigrams hs mf) alpha sent \<Longrightarrow>
     sent \<noteq> [] \<and> hd sent = START_TOKEN \<and> set (tl sent) \<subseteq> vocab hs mf \<and>
     START_TOKEN \<in> vocab hs mf \<and>
     (0 < alpha \<and> last sent \<noteq> STOP_TOKEN \<and> map_of (unigrams hs mf) (last sent) \<noteq> None \<longrightarrow>
        generate_headline (vocab hs mf) (unigrams hs mf) (bigrams hs mf) alpha
          (sent @ [START_TOKEN]))"
proof (intro conjI impI)
  assume run: "generate_headline (vocab hs mf) (unigrams hs mf) (bigrams hs mf) alpha sent"
  from generate_headline_shape[OF run]
  show "sent \<noteq> []" "hd sent = START_TOKEN" "set (tl sent) \<subseteq> vocab hs mf"
    by simp_all
  show member: "START_TOKEN \<in> vocab hs mf"
    by (simp add: vocab_def)
  assume more: "0 < alpha \<and> last sent \<noteq> STOP_TOKEN \<and>
      map_of (unigrams hs mf) (last sent) \<noteq> None"
  have "0 < card (vocab hs mf)"
    using card_vocab_ge_2[of hs mf] by simp
  moreover from more obtain u where "map_of (unigrams hs mf) (last sent) = Some u"
    by auto
  ultimately obtain p where
    "get_probability START_TOKEN (last sent) (unigrams hs mf) (bigrams hs mf) alpha
       (card (vocab hs mf)) = Inr p"
    "0 < p"
    using more get_probability_pos by blast
  with run more member
  show "generate_headline (vocab hs mf) (unigrams hs mf) (bigrams hs mf) alpha (sent @ [START_TOKEN])"
    by (auto intro: generate_headline.sample)
qed

text \<open>In the scenario with alpha = 1, after START and "the" the generator can append START.\<close>

theorem generate_headline_tokens_witness:
  "generate_headline (vocab scenario_corpus 0) (unigrams scenario_corpus 0)
     (bigrams scenario_corpus 0) 1 [START_TOKEN, ''the''] \<and>
   hd [START_TOKEN, ''the''] = START_TOKEN \<and>
   set (tl [START_TOKEN, ''the'']) \<subseteq> vocab scenario_corpus 0 \<and>
   (0::real) < 1 \<and> last [START_TOKEN, ''the''] \<noteq> STOP_TOKEN \<and>
   map_of (unigrams scenario_corpus 0) (last [START_TOKEN, ''the'']) = Some 2 \<and>
   generate_headline (vocab scenario_corpus 0) (unigrams scenario_corpus 0)
     (bigrams scenario_corpus 0) 1 ([START_TOKEN, ''the''] @ [START_TOKEN])"
proof -
  have p: "get_probability ''the'' START_TOKEN (unigrams scenario_corpus 0)
       (bigrams scenario_corpus 0) 1 (card (vocab scenario_corpus 0)) = Inr (1 / 3)"
    by (simp add: get_probability_def scenario_unigrams scenario_bigrams scenario_vocab_size)
  have "generate_headline (vocab scenario_corpus 0) (unigrams scenario_corpus 0)
     (bigrams scenario_corpus 0) 1 ([START_TOKEN] @ [''the''])"
  proof (rule generate_headline.sample)
    show "generate_headline (vocab scenario_corpus 0) (unigrams scenario_corpus 0)
       (bigrams scenario_corpus 0) 1 [START_TOKEN]"
      by (rule generate_headline.start)
    show "last [START_TOKEN] \<noteq> STOP_TOKEN"
      by (simp add: start_ne_stop)
    show "''the'' \<in> vocab scenario_corpus 0"
      by (simp add: scenario_vocab)
    show "get_probability ''the'' (last [START_TOKEN]) (unigrams scenario_corpus 0)
       (bigrams scenario_corpus 0) 1 (card (vocab scenario_corpus 0)) = Inr (1 / 3)"
      by (simp add: p)
    show "(0::real) < 1 / 3"
      by simp
  qed
  then have run: "generate_headline (vocab scenario_corpus 0) (unigrams scenario_corpus 0)
     (bigrams scenario_corpus 0) 1 [START_TOKEN, ''the'']"
    by simp
  have side: "(0::real) < 1" "last [START_TOKEN, ''the''] \<noteq> STOP_TOKEN"
    "map_of (unigrams scenario_corpus 0) (last [START_TOKEN, ''the'']) = Some 2"
    by (simp_all add: scenario_unigrams STOP_TOKEN_def START_TOKEN_def)
  from generate_headline_tokens[OF run] side run show ?thesis
    by simp
qed

text \<open>
  Claim C8 as stated fails: in the scenario with alpha = 1 the probability of START after
  START is 1/9, so the first sampled target can be START and the sequence
  START, START is generated.
\<close>

theorem start_sampled_counterexample:
  "generate_headline (vocab scenario_corpus 0) (unigrams scenario_corpus 0)
     (bigrams scenario_corpus 0) 1 [START_TOKEN, START_TOKEN]"
proof -
  have "generate_headline (vocab scenario_corpus 0) (unigrams scenario_corpus 0)
     (bigrams scenario_corpus 0) 1 ([START_TOKEN] @ [START_TOKEN])"
  proof (rule generate_headline.sample)
    show "generate_headline (vocab scenario_corpus 0) (unigrams scenario_corpus 0)
       (bigrams scenario_corpus 0) 1 [START_TOKEN]"
      by (rule generate_headline.start)
    show "last [START_TOKEN] \<noteq> STOP_TOKEN"
      by (simp add: start_ne_stop)
    show "START_TOKEN \<in> vocab scenario_corpus 0"
      by (simp add: vocab_def)
    show "get_probability START_TOKEN (last [START_TOKEN]) (unigrams scenario_corpus 0)
       (bigrams scenario_corpus 0) 1 (card (vocab scenario_corpus 0)) = Inr (1 / 9)"
      by (simp add: scenario_start_after_start)
    show "(0::real) < 1 / 9"
      by simp
  qed
  then show ?thesis
    by simp
qed

subsection \<open>Empty lines and perplexity\<close>

text \<open>
  Claim C6. An empty or punctuation-only line should give the two tokens START, STOP and
  be scored without error. The code splits the stripped line with \<^verbatim>\<open>split(" ")\<close>,
  which returns one empty string for the empty line: the sequence is START, "", STOP, the
  empty string is counted as a word and enters the vocabulary of a corpus with an empty
  line, and scoring the empty held-out line against the scenario's counts raises KeyError
  at the context "".
\<close>

theorem empty_line_tokens:
  "tokens_of (regex_sub (first_line [])) = [START_TOKEN, [], STOP_TOKEN] \<and>
   tokens_of (regex_sub (first_line ''?!'')) = [START_TOKEN, [], STOP_TOKEN] \<and>
   count_unigrams (regex_sub (first_line [])) [] = [(START_TOKEN, 1), ([], 1), (STOP_TOKEN, 1)] \<and>
   [] \<in> vocab (strip_lines [[], ''a'']) 0 \<and>
   calculate_perplexity (replace_text_dev (vocab scenario_corpus 0) (regex_sub (first_line [])))
     (unigrams scenario_corpus 0) (bigrams scenario_corpus 0) 1 (card (vocab scenario_corpus 0))
     = Inl KeyError"
proof (intro conjI)
  show "tokens_of (regex_sub (first_line [])) = [START_TOKEN, [], STOP_TOKEN]"
    by code_simp
  show "tokens_of (regex_sub (first_line ''?!'')) = [START_TOKEN, [], STOP_TOKEN]"
    by code_simp
  show "count_unigrams (regex_sub (first_line [])) [] = [(START_TOKEN, 1), ([], 1), (STOP_TOKEN, 1)]"
    by code_simp
  show "[] \<in> vocab (strip_lines [[], ''a'']) 0"
    by code_simp
  have t: "tokens_of (replace_text_dev (vocab scenario_corpus 0) (regex_sub (first_line [])))
     = [START_TOKEN, [], STOP_TOKEN]"
    by code_simp
  have p1: "get_probability [] START_TOKEN (unigrams scenario_corpus 0)
      (bigrams scenario_corpus 0) 1 7 = Inr (1 / 9)"
    by (simp add: get_probability_def scenario_unigrams scenario_bigrams START_TOKEN_def STOP_TOKEN_def)
  have p2: "get_probability STOP_TOKEN [] (unigrams scenario_corpus 0)
      (bigrams scenario_corpus 0) 1 7 = Inl KeyError"
    by (simp add: get_probability_def scenario_unigrams scenario_bigrams START_TOKEN_def STOP_TOKEN_def)
  show "calculate_perplexity (replace_text_dev (vocab scenario_corpus 0) (regex_sub (first_line [])))
     (unigrams scenario_corpus 0) (bigrams scenario_corpus 0) 1 (card (vocab scenario_corpus 0))
     = Inl KeyError"
    by (simp add: calculate_perplexity_def t p1 p2 scenario_vocab_size)
qed

text \<open>
  Where no lookup fails the score is as intended: a bigram is never counted more often
  than its context, so with alpha > 0 every probability of the estimator lies in (0, 1],
  every summand of the loop is non-negative, and the perplexity is a real number that is
  at least 1.
\<close>

lemma log_sum_loop_nonneg:
  assumes "0 < alpha"
  shows "set (butlast tokens) \<subseteq> fst ` set (unigrams hs mf) \<Longrightarrow> 0 \<le> s \<Longrightarrow>
     \<exists>s'. log_sum_loop tokens (unigrams hs mf) (bigrams hs mf) alpha (card (vocab hs mf)) (Some s)
            = Inr (Some s') \<and> 0 \<le> s'"
proof (induction tokens arbitrary: s rule: induct_list012)
  case 1
  then show ?case by simp
next
  case (2 x)
  then show ?case by simp
next
  case (3 x y zs)
  from "3.prems"(1) obtain u where "map_of (unigrams hs mf) x = Some u"
    by (cases "map_of (unigrams hs mf) x") (auto simp: map_of_eq_None_iff)
  from get_probability_unit_interval[OF assms this, of y]
  obtain p where p: "get_probability y x (unigrams hs mf) (bigrams hs mf) alpha (card (vocab hs mf)) = Inr p"
    and "0 < p" "p \<le> 1"
    by blast
  then have "ln p \<le> 0"
    by simp
  with "3.prems"(2) have acc: "0 \<le> s + ln p * (- 1)"
    by simp
  have "set (butlast (y # zs)) \<subseteq> fst ` set (unigrams hs mf)"
    using "3.prems"(1) by (auto split: if_splits)
  from "3.IH"(2)[OF this acc] p \<open>0 < p\<close> show ?case
    by (simp add: np_log_def)
qed

lemma perplexity_at_least_one:
  assumes "0 < alpha"
    and "set (butlast (tokens_of text)) \<subseteq> fst ` set (unigrams hs mf)"
  shows "\<exists>p. calculate_perplexity text (unigrams hs mf) (bigrams hs mf) alpha (card (vocab hs mf))
            = Inr (Some p) \<and> 1 \<le> p"
proof -
  from log_sum_loop_nonneg[OF assms(1) assms(2), of 0]
  obtain s where "log_sum_loop (tokens_of text) (unigrams hs mf) (bigrams hs mf) alpha
      (card (vocab hs mf)) (Some 0) = Inr (Some s)" and "0 \<le> s"
    by auto
  moreover from \<open>0 \<le> s\<close> have "1 \<le> exp (s / real (length (tokens_of text) - 1))"
    by simp
  ultimately show ?thesis
    by (simp add: calculate_perplexity_def)
qed

text \<open>
  Claim C5. The perplexity of every held-out sequence should be a finite real, at least 1.
  In the scenario (no rare word, so UNK is never counted) the held-out line
  "the bird sat" is rewritten to "the <UNK> sat", and scoring it raises KeyError at the
  context UNK: no perplexity is returned.
\<close>

theorem heldout_unseen_word_raises:
  "calculate_perplexity (replace_text_dev (vocab scenario_corpus 0) ''the bird sat'')
     (unigrams scenario_corpus 0) (bigrams scenario_corpus 0) 1 (card (vocab scenario_corpus 0))
     = Inl KeyError"
proof -
  have t: "tokens_of (replace_text_dev (vocab scenario_corpus 0) ''the bird sat'')
     = [START_TOKEN, ''the'', UNK_TOKEN, ''sat'', STOP_TOKEN]"
    by code_simp
  have p1: "get_probability ''the'' START_TOKEN (unigrams scenario_corpus 0)
      (bigrams scenario_corpus 0) 1 7 = Inr (1 / 3)"
    by (simp add: get_probability_def scenario_unigrams scenario_bigrams)
  have p2: "get_probability UNK_TOKEN ''the'' (unigrams scenario_corpus 0)
      (bigrams scenario_corpus 0) 1 7 = Inr (1 / 9)"
    by (simp add: get_probability_def scenario_unigrams scenario_bigrams START_TOKEN_def
        STOP_TOKEN_def UNK_TOKEN_def)
  have p3: "get_probability ''sat'' UNK_TOKEN (unigrams scenario_corpus 0)
      (bigrams scenario_corpus 0) 1 7 = Inl KeyError"
    by (simp add: get_probability_def scenario_unigrams scenario_bigrams START_TOKEN_def
        STOP_TOKEN_def UNK_TOKEN_def)
  show ?thesis
    by (simp add: calculate_perplexity_def t p1 p2 p3 scenario_vocab_size)
qed

end
